theory Spec2Isabelle
  imports Main "HOL-Library.Log_Nat"
begin

section \<open>JavaScript numbers\<close>

text \<open>
  Every number of \<^verbatim>\<open>App.js\<close> is an IEEE-754 binary64 value. A finite double is
  modelled by the rational it denotes, and an arithmetic operation is the exact
  operation followed by rounding to the nearest double, ties to the even significand
  (\<open>rnd\<close>). Subnormals are covered (the exponent is clamped at \<open>-1022\<close>). Overflow
  to \<open>Infinity\<close> is not: the magnitudes of this program stay far below \<open>2 ^ 1024\<close>.
  Comparisons, \<^verbatim>\<open>Math.min\<close>, \<^verbatim>\<open>Math.max\<close>, \<^verbatim>\<open>Math.round\<close> and \<^verbatim>\<open>Math.floor\<close> are exact on
  finite doubles. A decimal literal of the source denotes the double nearest to it
  (\<open>lit\<close>); integer literals are written as they are.
\<close>

definition expo :: "rat \<Rightarrow> int" where
  \<comment> \<open>the binary exponent \<open>\<lfloor>log\<^sub>2 \<bar>x\<bar>\<rfloor>\<close> of a nonzero rational\<close>
  "expo x = (let (p, q) = quotient_of \<bar>x\<bar>; d = bitlen p - bitlen q
             in if 2 powi d \<le> \<bar>x\<bar> then d else d - 1)"

definition round_half_even :: "rat \<Rightarrow> int" where
  "round_half_even x =
     (let f = \<lfloor>x\<rfloor>; d = x - of_int f
      in if d < 1 / 2 then f
         else if 1 / 2 < d then f + 1
         else if even f then f else f + 1)"

definition ulp :: "rat \<Rightarrow> rat" where
  \<comment> \<open>the spacing of the doubles around \<open>x\<close>: 53 significant bits\<close>
  "ulp x = 2 powi (max (expo x) (- 1022) - 52)"

definition rnd :: "rat \<Rightarrow> rat" where
  "rnd x = (if x = 0 then 0 else of_int (round_half_even (x / ulp x)) * ulp x)"

definition lit :: "rat \<Rightarrow> rat" where
  "lit x = rnd x"

definition fadd :: "rat \<Rightarrow> rat \<Rightarrow> rat" where
  "fadd a b = rnd (a + b)"

definition fsub :: "rat \<Rightarrow> rat \<Rightarrow> rat" where
  "fsub a b = rnd (a - b)"

definition fmul :: "rat \<Rightarrow> rat \<Rightarrow> rat" where
  "fmul a b = rnd (a * b)"

definition fdiv :: "rat \<Rightarrow> rat \<Rightarrow> rat" where
  \<comment> \<open>division where the source guarantees a nonzero divisor\<close>
  "fdiv a b = rnd (a / b)"

datatype jsnum = Num rat | PosInfinity | NegInfinity | NaN

definition js_div :: "rat \<Rightarrow> rat \<Rightarrow> jsnum" where
  \<comment> \<open>the operator \<^verbatim>\<open>/\<close> on finite doubles, with its results outside the finite ones\<close>
  "js_div a b =
     (if b = 0 then (if a = 0 then NaN else if 0 < a then PosInfinity else NegInfinity)
      else Num (fdiv a b))"

definition Math_round :: "rat \<Rightarrow> int" where
  \<comment> \<open>the nearest integer, a tie going towards \<open>+\<infinity>\<close>\<close>
  "Math_round x = \<lfloor>x + 1 / 2\<rfloor>"

definition Math_floor :: "rat \<Rightarrow> int" where
  "Math_floor x = \<lfloor>x\<rfloor>"


section \<open>Data\<close>

text \<open>
  A pose of the detector is its list of keypoints. The fields \<^verbatim>\<open>name\<close>, \<^verbatim>\<open>x\<close>, \<^verbatim>\<open>y\<close>
  and \<^verbatim>\<open>score\<close> carry the prefix \<open>kp_\<close> here.
\<close>

record keypoint =
  kp_name :: string
  kp_x :: rat
  kp_y :: rat
  kp_score :: rat

record pose =
  keypoints :: "keypoint list"

text \<open>
  What the component hands to its collaborators, in the order of the calls:
  \<^verbatim>\<open>playAlertSound()\<close> (tagged with the \<^verbatim>\<open>Date.now()\<close> value of the alert), the
  \<^verbatim>\<open>PUT /sessions/{id}\<close> of a stop, the \<^verbatim>\<open>POST /sessions\<close> of a start and the
  \<^verbatim>\<open>POST /detections\<close> of \<^verbatim>\<open>logDetection\<close>. The \<^verbatim>\<open>session_end\<close> time stamp of the PUT is
  left out.
\<close>

record session_update =
  total_detections :: int
  max_emf_level :: rat

record detection_post =
  detection_type :: string
  confidence :: jsnum
  keypoints_count :: nat
  emf_level :: rat
  spirit_box_frequency :: "rat option"

datatype effect =
    PlayAlertSound int
  | PutSession string session_update
  | PostSession
  | PostDetection detection_post

text \<open>
  The state of the component: its \<^verbatim>\<open>useState\<close> cells and the ref \<^verbatim>\<open>lastAlertTime\<close>
  under their own names, then what the browser holds for it: the handle kept in
  \<^verbatim>\<open>animationRef\<close>, the animation-frame callbacks not yet run, the number of
  \<^verbatim>\<open>detectPoses\<close> calls suspended at \<^verbatim>\<open>await estimatePoses\<close>, whether the interval of
  the sweep effect is registered, the pending \<^verbatim>\<open>setTimeout\<close> callbacks that clear
  \<^verbatim>\<open>spiritWord\<close> and \<^verbatim>\<open>alertMessage\<close>, the \<^verbatim>\<open>toggleSession\<close> calls suspended at
  \<^verbatim>\<open>await startCamera()\<close>, the pending session and detection POSTs, whether the camera
  stream is live, and the calls made to collaborators so far.
\<close>

record app =
  isRunning :: bool
  detectionCount :: int
  emfLevel :: rat
  spiritBoxFreq :: rat
  spiritBoxActive :: bool
  spiritWord :: string
  alertMessage :: string
  currentPoses :: "pose list"
  sessionId :: "string option"
  lastAlertTime :: int
  animationRef :: "nat option"
  frameQueue :: "nat list"
  nextHandle :: nat
  inFlight :: nat
  sweepInterval :: bool
  wordClears :: nat
  alertClears :: nat
  startsPending :: nat
  postsPending :: nat
  logsPending :: nat
  cameraOn :: bool
  outbox :: "effect list"

definition initial :: app where
  "initial =
     \<lparr> isRunning = False, detectionCount = 0, emfLevel = 0, spiritBoxFreq = lit (881 / 10),
       spiritBoxActive = False, spiritWord = [], alertMessage = [], currentPoses = [],
       sessionId = None, lastAlertTime = 0, animationRef = None, frameQueue = [],
       nextHandle = 0, inFlight = 0, sweepInterval = False, wordClears = 0,
       alertClears = 0, startsPending = 0, postsPending = 0, logsPending = 0,
       cameraOn = False, outbox = [] \<rparr>"

definition SPIRIT_WORDS :: "string list" where
  "SPIRIT_WORDS =
     [''hello'', ''help'', ''here'', ''yes'', ''no'', ''leave'', ''stay'', ''danger'',
      ''follow'', ''behind'', ''cold'', ''dark'', ''light'', ''death'', ''life'',
      ''lost'', ''find'', ''home'', ''gone'', ''watch'', ''listen'', ''quiet'',
      ''run'', ''stop'', ''wait'', ''soon'', ''never'', ''always'', ''fear'']"


section \<open>The detection loop\<close>

definition requestAnimationFrame :: "app \<Rightarrow> app" where
  \<comment> \<open>\<^verbatim>\<open>animationRef.current = requestAnimationFrame(detectPoses)\<close>\<close>
  "requestAnimationFrame s =
     s\<lparr> frameQueue := frameQueue s @ [nextHandle s],
        animationRef := Some (nextHandle s),
        nextHandle := nextHandle s + 1 \<rparr>"

definition cancelAnimationFrame :: "nat option \<Rightarrow> app \<Rightarrow> app" where
  "cancelAnimationFrame h s =
     (case h of None \<Rightarrow> s
      | Some i \<Rightarrow> s\<lparr> frameQueue := filter (\<lambda>j. j \<noteq> i) (frameQueue s) \<rparr>)"

definition validKeypoints :: "pose \<Rightarrow> keypoint list" where
  \<comment> \<open>\<^verbatim>\<open>pose.keypoints.filter((kp) => kp.score > 0.3)\<close>\<close>
  "validKeypoints p = filter (\<lambda>kp. lit (3 / 10) < kp_score kp) (keypoints p)"

definition sumScores :: "keypoint list \<Rightarrow> rat" where
  \<comment> \<open>\<^verbatim>\<open>validKeypoints.reduce((a, b) => a + b.score, 0)\<close>\<close>
  "sumScores ks = foldl (\<lambda>a b. fadd a (kp_score b)) 0 ks"

definition avgScore :: "pose \<Rightarrow> rat" where
  \<comment> \<open>used where \<^verbatim>\<open>validKeypoints.length > 5\<close>\<close>
  "avgScore p = fdiv (sumScores (validKeypoints p)) (of_nat (length (validKeypoints p)))"

definition newEmf :: "pose \<Rightarrow> rat \<Rightarrow> rat" where
  \<comment> \<open>\<^verbatim>\<open>Math.min(5, avgScore * 5 + Math.random() * 0.5)\<close>, \<open>r\<close> the random number\<close>
  "newEmf p r = min 5 (fadd (fmul (avgScore p) 5) (fmul r (lit (1 / 2))))"

definition qualifying :: "pose \<Rightarrow> bool" where
  \<comment> \<open>\<^verbatim>\<open>validKeypoints.length > 5\<close>\<close>
  "qualifying p = (5 < length (validKeypoints p))"

definition poseCallback :: "app \<Rightarrow> pose \<times> rat \<times> int \<Rightarrow> app" where
  \<comment> \<open>the body of \<^verbatim>\<open>poses.forEach\<close>, for a pose with the values that \<^verbatim>\<open>Math.random()\<close>
      and \<^verbatim>\<open>Date.now()\<close> return while it is handled\<close>
  "poseCallback s smp =
     (case smp of (p, r, now) \<Rightarrow>
        if qualifying p then
          let s1 = s\<lparr> emfLevel := newEmf p r \<rparr>
          in if 3000 < now - lastAlertTime s1 then
               s1\<lparr> lastAlertTime := now,
                   detectionCount := detectionCount s1 + 1,
                   alertMessage := ''ENTITY DETECTED'',
                   outbox := outbox s1 @ [PlayAlertSound now],
                   alertClears := alertClears s1 + 1 \<rparr>
             else s1
        else s)"

definition decayStep :: "rat \<Rightarrow> rat" where
  \<comment> \<open>the updater \<^verbatim>\<open>(prev) => Math.max(0, prev - 0.1)\<close> of the decay branch\<close>
  "decayStep prev = max 0 (fsub prev (lit (1 / 10)))"

definition processPoses :: "(pose \<times> rat \<times> int) list \<Rightarrow> app \<Rightarrow> app" where
  \<comment> \<open>from \<^verbatim>\<open>setCurrentPoses(poses)\<close> to the end of the \<^verbatim>\<open>try\<close> block\<close>
  "processPoses smps s =
     (let s1 = s\<lparr> currentPoses := map fst smps \<rparr>
      in if 0 < length smps then foldl poseCallback s1 smps
         else s1\<lparr> emfLevel := decayStep (emfLevel s1) \<rparr>)"

definition detectPoses :: "bool \<Rightarrow> nat \<Rightarrow> app \<Rightarrow> app" where
  \<comment> \<open>\<^verbatim>\<open>detectPoses\<close> up to \<^verbatim>\<open>await estimatePoses(video)\<close>; \<open>refs\<close> says that detector, video
      and canvas are there, \<open>readyState\<close> is the video's\<close>
  "detectPoses refs readyState s =
     (if \<not> refs then s
      else if readyState \<noteq> 4 then requestAnimationFrame s
      else s\<lparr> inFlight := inFlight s + 1 \<rparr>)"

definition detectPoses_resume :: "string + (pose \<times> rat \<times> int) list \<Rightarrow> app \<Rightarrow> app" where
  \<comment> \<open>\<^verbatim>\<open>detectPoses\<close> from the point where \<^verbatim>\<open>estimatePoses\<close> settles: with an error, which
      the \<^verbatim>\<open>catch\<close> logs, or with the poses\<close>
  "detectPoses_resume res s =
     (let s0 = s\<lparr> inFlight := inFlight s - 1 \<rparr>
      in requestAnimationFrame
           (case res of Inl err \<Rightarrow> s0 | Inr smps \<Rightarrow> processPoses smps s0))"


section \<open>The frequency sweep\<close>

definition sweepDelta :: "rat \<Rightarrow> rat" where
  \<comment> \<open>\<^verbatim>\<open>(Math.random() * 2 - 1) * 0.5\<close>\<close>
  "sweepDelta r = fmul (fsub (fmul r 2) 1) (lit (1 / 2))"

definition sweepNext :: "rat \<Rightarrow> rat \<Rightarrow> rat" where
  "sweepNext prev delta =
     (let next = fadd prev delta;
          next = (if 108 < next then 88 else next);
          next = (if next < 88 then 108 else next)
      in fdiv (of_int (Math_round (fmul next 10))) 10)"

definition sweepFreq :: "rat \<Rightarrow> rat \<Rightarrow> rat" where
  \<comment> \<open>the updater passed to \<^verbatim>\<open>setSpiritBoxFreq\<close>\<close>
  "sweepFreq r prev = sweepNext prev (sweepDelta r)"

definition pickWord :: "rat \<Rightarrow> string" where
  \<comment> \<open>\<^verbatim>\<open>SPIRIT_WORDS[Math.floor(Math.random() * SPIRIT_WORDS.length)]\<close>; outside the
      array the value is \<^verbatim>\<open>undefined\<close>, which shows no word\<close>
  "pickWord r =
     (let i = Math_floor (fmul r (of_nat (length SPIRIT_WORDS)))
      in if 0 \<le> i \<and> i < int (length SPIRIT_WORDS) then SPIRIT_WORDS ! nat i else [])"

definition sweepTick :: "rat \<Rightarrow> rat \<Rightarrow> rat \<Rightarrow> app \<Rightarrow> app" where
  \<comment> \<open>the interval callback, with the three random numbers it draws\<close>
  "sweepTick r1 r2 r3 s =
     (let s1 = s\<lparr> spiritBoxFreq := sweepFreq r1 (spiritBoxFreq s) \<rparr>
      in if r2 < lit (5 / 100) then
           s1\<lparr> spiritWord := pickWord r3, wordClears := wordClears s1 + 1 \<rparr>
         else s1)"

definition setSpiritBoxActive :: "bool \<Rightarrow> app \<Rightarrow> app" where
  \<comment> \<open>the setter together with the effect on \<^verbatim>\<open>[spiritBoxActive]\<close>: its cleanup is
      \<^verbatim>\<open>clearInterval(interval)\<close>, its body registers the interval when active\<close>
  "setSpiritBoxActive b s = s\<lparr> spiritBoxActive := b, sweepInterval := b \<rparr>"


section \<open>Session control and logging\<close>

definition stopCamera :: "app \<Rightarrow> app" where
  "stopCamera s = s\<lparr> cameraOn := False \<rparr>"

definition toggleSession :: "app \<Rightarrow> app" where
  \<comment> \<open>\<^verbatim>\<open>toggleSession\<close> up to its first \<^verbatim>\<open>await\<close>: the whole stop branch but for the
      answer of the PUT, or the start branch entering \<^verbatim>\<open>startCamera()\<close>\<close>
  "toggleSession s =
     (if isRunning s then
        let s1 = cancelAnimationFrame (animationRef s) s;
            s2 = stopCamera s1;
            s3 = s2\<lparr> isRunning := False \<rparr>;
            s4 = setSpiritBoxActive False s3
        in (case sessionId s of
              None \<Rightarrow> s4
            | Some sid \<Rightarrow>
                if sid = [] then s4
                else s4\<lparr> outbox := outbox s4 @
                       [PutSession sid \<lparr> total_detections = detectionCount s,
                                         max_emf_level = emfLevel s \<rparr>] \<rparr>)
      else s\<lparr> startsPending := startsPending s + 1 \<rparr>)"

definition toggleSession_started :: "bool \<Rightarrow> bool \<Rightarrow> nat \<Rightarrow> app \<Rightarrow> app" where
  \<comment> \<open>the start branch from the point where \<^verbatim>\<open>startCamera()\<close> settles, up to
      \<^verbatim>\<open>await axios.post\<close>; \<open>refs\<close> and \<open>readyState\<close> are what \<^verbatim>\<open>detectPoses()\<close> finds\<close>
  "toggleSession_started cameraStarted refs readyState s =
     (let s0 = s\<lparr> startsPending := startsPending s - 1 \<rparr>
      in if cameraStarted then
           let s1 = s0\<lparr> cameraOn := True, isRunning := True,
                        detectionCount := 0, emfLevel := 0 \<rparr>;
               s2 = detectPoses refs readyState s1
           in s2\<lparr> outbox := outbox s2 @ [PostSession],
                   postsPending := postsPending s2 + 1 \<rparr>
         else s0\<lparr> alertMessage := ''Camera access denied'' \<rparr>)"

definition toggleSession_created :: "string option \<Rightarrow> app \<Rightarrow> app" where
  \<comment> \<open>the answer of \<^verbatim>\<open>POST /sessions\<close>: an id, or a failure that is logged\<close>
  "toggleSession_created res s =
     (let s0 = s\<lparr> postsPending := postsPending s - 1 \<rparr>
      in case res of None \<Rightarrow> s0 | Some sid \<Rightarrow> s0\<lparr> sessionId := Some sid \<rparr>)"

definition logDetection :: "app \<Rightarrow> app" where
  \<comment> \<open>\<^verbatim>\<open>logDetection\<close> up to \<^verbatim>\<open>await axios.post\<close>\<close>
  "logDetection s =
     (case currentPoses s of
        [] \<Rightarrow> s
      | p # ps \<Rightarrow>
          let vs = validKeypoints p;
              avgConfidence = js_div (sumScores vs) (of_nat (length vs))
          in s\<lparr> outbox := outbox s @
                 [PostDetection
                    \<lparr> detection_type = ''pose'',
                      confidence = avgConfidence,
                      keypoints_count = length vs,
                      emf_level = emfLevel s,
                      spirit_box_frequency =
                        (if spiritBoxActive s then Some (spiritBoxFreq s) else None) \<rparr>],
                logsPending := logsPending s + 1 \<rparr>)"

definition logDetection_logged :: "bool \<Rightarrow> app \<Rightarrow> app" where
  \<comment> \<open>the answer of \<^verbatim>\<open>POST /detections\<close>; the history list is not part of the state\<close>
  "logDetection_logged ok s =
     (let s0 = s\<lparr> logsPending := logsPending s - 1 \<rparr>
      in if ok then s0\<lparr> alertMessage := ''DETECTION LOGGED'',
                        alertClears := alertClears s0 + 1 \<rparr>
         else s0)"


section \<open>The event loop\<close>

text \<open>
  One event is one run of the component's code between two suspensions. An event is
  enabled only when the browser holds its callback: an animation frame whose handle is
  queued, a tick of a registered interval, a pending timeout, a pending promise; a
  click on the log button only while the button is not disabled
  (\<^verbatim>\<open>disabled={!isRunning || currentPoses.length === 0}\<close>).
  \<open>step\<close> is \<open>None\<close> on an event that is not enabled.
\<close>

datatype event =
    ClickToggleSession
  | CameraSettled bool bool nat
  | SessionPosted "string option"
  | AnimationFrame nat bool nat
  | PosesSettled "string + (pose \<times> rat \<times> int) list"
  | SweepTick rat rat rat
  | WordClearTimeout
  | AlertClearTimeout
  | ClickSpirit
  | ClickLogDetection
  | DetectionPosted bool

fun step :: "event \<Rightarrow> app \<Rightarrow> app option" where
  "step ClickToggleSession s = Some (toggleSession s)"
| "step (CameraSettled ok refs rs) s =
     (if 0 < startsPending s then Some (toggleSession_started ok refs rs s) else None)"
| "step (SessionPosted res) s =
     (if 0 < postsPending s then Some (toggleSession_created res s) else None)"
| "step (AnimationFrame h refs rs) s =
     (if h \<in> set (frameQueue s)
      then Some (detectPoses refs rs (s\<lparr> frameQueue := filter (\<lambda>j. j \<noteq> h) (frameQueue s) \<rparr>))
      else None)"
| "step (PosesSettled res) s =
     (if 0 < inFlight s then Some (detectPoses_resume res s) else None)"
| "step (SweepTick r1 r2 r3) s =
     (if sweepInterval s then Some (sweepTick r1 r2 r3 s) else None)"
| "step WordClearTimeout s =
     (if 0 < wordClears s
      then Some (s\<lparr> spiritWord := [], wordClears := wordClears s - 1 \<rparr>) else None)"
| "step AlertClearTimeout s =
     (if 0 < alertClears s
      then Some (s\<lparr> alertMessage := [], alertClears := alertClears s - 1 \<rparr>) else None)"
| "step ClickSpirit s = Some (setSpiritBoxActive (\<not> spiritBoxActive s) s)"
| "step ClickLogDetection s =
     (if isRunning s \<and> currentPoses s \<noteq> [] then Some (logDetection s) else None)"
| "step (DetectionPosted ok) s =
     (if 0 < logsPending s then Some (logDetection_logged ok s) else None)"

fun exec :: "event list \<Rightarrow> app \<Rightarrow> app option" where
  "exec [] s = Some s"
| "exec (e # es) s = (case step e s of None \<Rightarrow> None | Some s' \<Rightarrow> exec es s')"

definition alerts :: "app \<Rightarrow> int list" where
  \<comment> \<open>the \<^verbatim>\<open>firedAt\<close> time stamps of the alerts so far, oldest first\<close>
  "alerts s = concat (map (\<lambda>e. case e of PlayAlertSound t \<Rightarrow> [t] | _ \<Rightarrow> []) (outbox s))"


section \<open>Sample inputs\<close>

definition kp :: "rat \<Rightarrow> keypoint" where
  "kp sc = \<lparr> kp_name = ''nose'', kp_x = 0, kp_y = 0, kp_score = sc \<rparr>"

definition poseOf :: "rat list \<Rightarrow> pose" where
  "poseOf scs = \<lparr> keypoints = map kp scs \<rparr>"

definition strongPose :: pose where
  \<comment> \<open>six keypoints of score 1\<close>
  "strongPose = poseOf [1, 1, 1, 1, 1, 1]"

definition halfPose :: pose where
  \<comment> \<open>six keypoints of score 0.5\<close>
  "halfPose = poseOf [1 / 2, 1 / 2, 1 / 2, 1 / 2, 1 / 2, 1 / 2]"

definition weakPose :: pose where
  \<comment> \<open>five keypoints of score 0.5 and twelve of score 0.25: five valid keypoints\<close>
  "weakPose = poseOf ([1 / 2, 1 / 2, 1 / 2, 1 / 2, 1 / 2] @ replicate 12 (1 / 4))"

definition blankPose :: pose where
  \<comment> \<open>seventeen keypoints of score 0.25: no valid keypoint\<close>
  "blankPose = poseOf (replicate 17 (1 / 4))"


section \<open>The invariant of the throttle and sample runs\<close>

definition throttled :: "app \<Rightarrow> bool" where
  \<comment> \<open>the invariant of the alert throttle: no alert is later than \<^verbatim>\<open>lastAlertTime\<close>, and
      of two alerts the later one comes more than 3000 ms after the earlier one\<close>
  "throttled s =
     (list_all (\<lambda>t. t \<le> lastAlertTime s) (alerts s)
      \<and> sorted_wrt (\<lambda>t u. 3000 < u - t) (alerts s))"

definition alertTrace :: "event list" where
  \<comment> \<open>a session with qualifying frames at 5000, 8000 and 8001 ms\<close>
  "alertTrace =
     [ClickToggleSession, CameraSettled True True 4,
      PosesSettled (Inr [(strongPose, 0, 5000)]), AnimationFrame 0 True 4,
      PosesSettled (Inr [(strongPose, 0, 8000)]), AnimationFrame 1 True 4,
      PosesSettled (Inr [(strongPose, 0, 8001)])]"

definition startTrace :: "event list" where
  \<comment> \<open>START is pressed and the camera starts\<close>
  "startTrace = [ClickToggleSession, CameraSettled True True 4]"

definition doubleStartTrace :: "event list" where
  \<comment> \<open>START is pressed twice before the camera answers; the first call's camera starts
      and its first frame is a qualifying pose\<close>
  "doubleStartTrace =
     [ClickToggleSession, ClickToggleSession, CameraSettled True True 4,
      PosesSettled (Inr [(strongPose, 0, 5000)])]"

definition doubleStarted :: app where
  \<comment> \<open>the state after \<open>doubleStartTrace\<close>\<close>
  "doubleStarted =
     detectPoses_resume (Inr [(strongPose, 0, 5000)])
       (toggleSession_started True True 4 (toggleSession (toggleSession initial)))"

definition sweepRunning :: app where
  \<comment> \<open>the sweep switched on, after one tick that received a word\<close>
  "sweepRunning = sweepTick (1 / 2) 0 0 (setSpiritBoxActive True initial)"

definition sweepStopped :: app where
  "sweepStopped = setSpiritBoxActive False sweepRunning"

definition staleTrace :: "event list" where
  \<comment> \<open>START, the camera starts and a detection is under way, then STOP\<close>
  "staleTrace = startTrace @ [ClickToggleSession]"

definition staleFrame :: event where
  \<comment> \<open>the detection that was under way delivers a qualifying pose\<close>
  "staleFrame = PosesSettled (Inr [(halfPose, 0, 5000)])"

definition firstFrameTrace :: "event list" where
  \<comment> \<open>a running session whose first frame was a qualifying pose\<close>
  "firstFrameTrace =
     startTrace @ [PosesSettled (Inr [(strongPose, 0, 5000)]), AnimationFrame 0 True 4]"

definition weakFrame :: event where
  \<comment> \<open>a frame whose one pose has five valid keypoints\<close>
  "weakFrame = PosesSettled (Inr [(weakPose, 0, 5016)])"

definition peakTrace :: "event list" where
  \<comment> \<open>a session with the id \<^verbatim>\<open>s1\<close> whose first frame drives the EMF level to 5\<close>
  "peakTrace =
     startTrace @ [SessionPosted (Some ''s1''), PosesSettled (Inr [(strongPose, 0, 5000)])]"

definition sessionTrace :: "event list" where
  \<comment> \<open>the same session, a second frame of lower confidence, then STOP\<close>
  "sessionTrace =
     peakTrace @ [AnimationFrame 0 True 4, PosesSettled (Inr [(halfPose, 0, 5016)]),
                  ClickToggleSession]"

definition blankState :: app where
  \<comment> \<open>a running session after a frame whose pose has no valid keypoint\<close>
  "blankState =
     detectPoses_resume (Inr [(blankPose, 0, 5000)])
       (toggleSession_started True True 4 (toggleSession initial))"


section \<open>Properties of the rounding\<close>

text \<open>
  \<open>expo\<close> is the binary exponent, so \<open>rnd x\<close> is a multiple of the spacing \<open>ulp x\<close> at
  distance at most half of it from \<open>x\<close>; rounding never crosses an integer below
  \<open>2 ^ 53\<close>, nor a multiple of \<open>1 / 2 ^ j\<close> that a double of that size can hold, and
  keeps the sign. A double below 1 is at most \<open>1 - 1 / 2 ^ 53\<close>.
\<close>

lemma quot_abs:
  assumes "x \<noteq> 0" and "quotient_of \<bar>x\<bar> = (p, q)"
  shows "0 < p" and "0 < q" and "\<bar>x\<bar> = of_int p / of_int q"
proof -
  show q: "0 < q" using assms(2) by (rule quotient_of_denom_pos)
  show e: "\<bar>x\<bar> = of_int p / of_int q" using assms(2) by (rule quotient_of_div)
  have "0 < \<bar>x\<bar>" using assms(1) by simp
  then have "0 < (of_int p :: rat) / of_int q" using e by simp
  then show "0 < p" using q by (simp add: zero_less_divide_iff)
qed

lemma pow2_bitlen_diff:
  "(2::rat) powi (a - b) = 2 powi a / 2 powi b"
  by (simp add: power_int_diff)

lemma expo_lower:
  assumes "x \<noteq> 0"
  shows "2 powi (expo x) \<le> \<bar>x\<bar>"
proof -
  obtain p q where pq: "quotient_of \<bar>x\<bar> = (p, q)" by (cases "quotient_of \<bar>x\<bar>")
  note f = quot_abs [OF assms pq]
  let ?d = "bitlen p - bitlen q"
  show ?thesis
  proof (cases "2 powi ?d \<le> \<bar>x\<bar>")
    case True
    then show ?thesis by (simp add: expo_def pq)
  next
    case False
    then have e: "expo x = ?d - 1" by (simp add: expo_def pq)
    have bp: "2 ^ nat (bitlen p - 1) \<le> p" using bitlen_bounds [OF f(1)] by simp
    have bq: "q < 2 ^ nat (bitlen q)" using bitlen_bounds [OF f(2)] by simp
    have p1: "1 \<le> bitlen p" using f(1) by (simp add: bitlen_alt_def)
    have "(2::rat) powi (bitlen p - 1) = 2 ^ nat (bitlen p - 1)"
      using p1 by (simp add: power_int_def)
    also have "\<dots> = of_int (2 ^ nat (bitlen p - 1))" by simp
    also have "\<dots> \<le> of_int p" using bp by (simp only: of_int_le_iff)
    finally have n: "(2::rat) powi (bitlen p - 1) \<le> of_int p" .
    have "(of_int q :: rat) \<le> of_int (2 ^ nat (bitlen q))" using bq by (simp only: of_int_le_iff)
    also have "\<dots> = 2 powi (bitlen q)" using bitlen_nonneg [of q] by (simp add: power_int_def)
    finally have m: "(of_int q :: rat) \<le> 2 powi (bitlen q)" .
    have "(2::rat) powi (?d - 1) = 2 powi (bitlen p - 1) / 2 powi (bitlen q)"
      using pow2_bitlen_diff [of "bitlen p - 1" "bitlen q"] by (simp add: algebra_simps)
    also have "\<dots> \<le> of_int p / of_int q"
      using n m f(1) f(2) by (intro frac_le) simp_all
    finally show ?thesis using e f(3) by simp
  qed
qed

lemma expo_upper:
  assumes "x \<noteq> 0"
  shows "\<bar>x\<bar> < 2 powi (expo x + 1)"
proof -
  obtain p q where pq: "quotient_of \<bar>x\<bar> = (p, q)" by (cases "quotient_of \<bar>x\<bar>")
  note f = quot_abs [OF assms pq]
  let ?d = "bitlen p - bitlen q"
  show ?thesis
  proof (cases "2 powi ?d \<le> \<bar>x\<bar>")
    case False
    then show ?thesis by (simp add: expo_def pq)
  next
    case True
    then have e: "expo x = ?d" by (simp add: expo_def pq)
    have bp: "p < 2 ^ nat (bitlen p)" using bitlen_bounds [OF f(1)] by simp
    have bq: "2 ^ nat (bitlen q - 1) \<le> q" using bitlen_bounds [OF f(2)] by simp
    have q1: "1 \<le> bitlen q" using f(2) by (simp add: bitlen_alt_def)
    have "(of_int p :: rat) < of_int (2 ^ nat (bitlen p))" using bp by (simp only: of_int_less_iff)
    also have "\<dots> = 2 powi (bitlen p)" using bitlen_nonneg [of p] by (simp add: power_int_def)
    finally have n: "(of_int p :: rat) < 2 powi (bitlen p)" .
    have "(2::rat) powi (bitlen q - 1) = 2 ^ nat (bitlen q - 1)"
      using q1 by (simp add: power_int_def)
    also have "\<dots> = of_int (2 ^ nat (bitlen q - 1))" by simp
    also have "\<dots> \<le> of_int q" using bq by (simp only: of_int_le_iff)
    finally have m: "(2::rat) powi (bitlen q - 1) \<le> of_int q" .
    have "of_int p / of_int q < (2::rat) powi (bitlen p) / 2 powi (bitlen q - 1)"
      using n m f(1) by (intro frac_less) simp_all
    also have "\<dots> = 2 powi (?d + 1)"
      using pow2_bitlen_diff [of "bitlen p" "bitlen q - 1"] by (simp add: algebra_simps)
    finally show ?thesis using e f(3) by simp
  qed
qed

lemma round_half_even_cases:
  "round_half_even x = \<lfloor>x\<rfloor> \<and> x - of_int \<lfloor>x\<rfloor> \<le> 1 / 2
   \<or> round_half_even x = \<lfloor>x\<rfloor> + 1 \<and> 1 / 2 \<le> x - of_int \<lfloor>x\<rfloor>"
  unfolding round_half_even_def Let_def by auto

lemma round_half_even_le:
  assumes "x \<le> of_int c"
  shows "round_half_even x \<le> c"
proof -
  show ?thesis
  proof (cases "x = of_int c")
    case True
    then show ?thesis by (simp add: round_half_even_def)
  next
    case False
    then have "x < of_int c" using assms by simp
    then have "\<lfloor>x\<rfloor> < c" by (simp add: floor_less_iff)
    then show ?thesis using round_half_even_cases [of x] by auto
  qed
qed

lemma round_half_even_ge:
  assumes "of_int c \<le> x"
  shows "c \<le> round_half_even x"
proof -
  have "c \<le> \<lfloor>x\<rfloor>" using assms by (simp add: le_floor_iff)
  then show ?thesis using round_half_even_cases [of x] by auto
qed

lemma round_half_even_near: "\<bar>of_int (round_half_even x) - x\<bar> \<le> 1 / 2"
proof -
  have "of_int \<lfloor>x\<rfloor> \<le> x" "x < of_int \<lfloor>x\<rfloor> + 1" by linarith+
  then show ?thesis using round_half_even_cases [of x] by auto
qed

lemma ulp_pos: "0 < ulp x"
  by (simp add: ulp_def)

lemma ulp_small:
  assumes "x \<noteq> 0" and "\<bar>x\<bar> < 2 ^ 53"
  shows "\<exists>k. ulp x = 1 / 2 ^ k"
proof -
  have "2 powi (expo x) < (2::rat) powi 53"
    using expo_lower [OF assms(1)] assms(2) by simp
  then have "expo x < 53" by (rule power_int_le_imp_less_exp [rotated]) simp_all
  then have "max (expo x) (- 1022) - 52 \<le> 0" by simp
  then have "ulp x = 1 / 2 ^ nat (52 - max (expo x) (- 1022))"
    unfolding ulp_def by (simp add: power_int_def field_simps nat_diff_distrib)
  then show ?thesis ..
qed

lemma rnd_le_int:
  assumes "\<bar>x\<bar> < 2 ^ 53" and "x \<le> of_int c"
  shows "rnd x \<le> of_int c"
proof (cases "x = 0")
  case True
  then show ?thesis using assms(2) by (simp add: rnd_def)
next
  case False
  obtain k where k: "ulp x = 1 / 2 ^ k" using ulp_small [OF False assms(1)] ..
  have "x / ulp x \<le> of_int (c * 2 ^ k)"
    using assms(2) by (simp add: k)
  then have "round_half_even (x / ulp x) \<le> c * 2 ^ k" by (rule round_half_even_le)
  then have "(of_int (round_half_even (x / ulp x)) :: rat) \<le> of_int (c * 2 ^ k)"
    by (simp only: of_int_le_iff)
  then show ?thesis using False by (simp add: rnd_def k field_simps)
qed

lemma rnd_ge_int:
  assumes "\<bar>x\<bar> < 2 ^ 53" and "of_int c \<le> x"
  shows "of_int c \<le> rnd x"
proof (cases "x = 0")
  case True
  then show ?thesis using assms(2) by (simp add: rnd_def)
next
  case False
  obtain k where k: "ulp x = 1 / 2 ^ k" using ulp_small [OF False assms(1)] ..
  have "of_int (c * 2 ^ k) \<le> x / ulp x"
    using assms(2) by (simp add: k)
  then have "c * 2 ^ k \<le> round_half_even (x / ulp x)" by (rule round_half_even_ge)
  then have "(of_int (c * 2 ^ k) :: rat) \<le> of_int (round_half_even (x / ulp x))"
    by (simp only: of_int_le_iff)
  then show ?thesis using False by (simp add: rnd_def k field_simps)
qed

lemma rnd_near: "\<bar>rnd x - x\<bar> \<le> ulp x / 2"
proof (cases "x = 0")
  case True
  then show ?thesis using ulp_pos [of x] by (simp add: rnd_def)
next
  case False
  have "rnd x - x = (of_int (round_half_even (x / ulp x)) - x / ulp x) * ulp x"
    using False ulp_pos [of x] by (simp add: rnd_def algebra_simps)
  then have "\<bar>rnd x - x\<bar> = \<bar>of_int (round_half_even (x / ulp x)) - x / ulp x\<bar> * ulp x"
    using ulp_pos [of x] by (simp add: abs_mult)
  also have "\<dots> \<le> (1 / 2) * ulp x"
    using round_half_even_near [of "x / ulp x"] ulp_pos [of x]
    by (intro mult_right_mono) simp_all
  finally show ?thesis by simp
qed


lemma rnd_nonneg: "0 \<le> x \<Longrightarrow> 0 \<le> rnd x"
proof -
  assume a: "0 \<le> x"
  have "of_int 0 \<le> x / ulp x" using a ulp_pos [of x] by simp
  then have "0 \<le> round_half_even (x / ulp x)" by (rule round_half_even_ge)
  then show ?thesis using ulp_pos [of x] by (simp add: rnd_def)
qed

lemma rnd_nonpos: "x \<le> 0 \<Longrightarrow> rnd x \<le> 0"
proof -
  assume a: "x \<le> 0"
  have "x / ulp x \<le> of_int 0" using a ulp_pos [of x] by (simp add: divide_le_0_iff)
  then have "round_half_even (x / ulp x) \<le> 0" by (rule round_half_even_le)
  then show ?thesis using ulp_pos [of x] by (simp add: rnd_def mult_le_0_iff)
qed

lemma rnd_le_nat:
  assumes "x \<le> of_int c" and "0 \<le> c" and "c < 2 ^ 53"
  shows "rnd x \<le> of_int c"
proof (cases "0 \<le> x")
  case True
  have "(of_int c :: rat) < of_int (2 ^ 53)" using assms(3) by (simp only: of_int_less_iff)
  then have "\<bar>x\<bar> < 2 ^ 53" using True assms(1) by simp
  then show ?thesis using assms(1) by (rule rnd_le_int)
next
  case False
  then have "rnd x \<le> 0" by (intro rnd_nonpos) simp
  then show ?thesis using assms(2) by (simp add: order_trans [where y = 0])
qed
lemma pow2_less_imp: "(2::rat) powi a < 2 powi b \<Longrightarrow> a < b"
proof (rule ccontr)
  assume l: "(2::rat) powi a < 2 powi b" and n: "\<not> a < b"
  then have "(2::rat) powi b \<le> 2 powi a" by (intro power_int_increasing) simp_all
  then show False using l by simp
qed

lemma ulp_dyadic:
  assumes "x \<noteq> 0" and "\<bar>x\<bar> * 2 ^ j < 2 ^ 53" and "j \<le> 1074"
  shows "\<exists>d. ulp x = 1 / 2 ^ (j + d)"
proof -
  have "\<bar>x\<bar> < 2 ^ 53 / 2 ^ j" using assms(2) by (simp add: field_simps)
  also have "\<dots> = 2 powi (53 - int j)" by (simp add: power_int_diff)
  finally have "2 powi (expo x) < (2::rat) powi (53 - int j)"
    using expo_lower [OF assms(1)] by simp
  then have "expo x < 53 - int j" by (rule pow2_less_imp)
  then have le: "max (expo x) (- 1022) - 52 \<le> - int j" using assms(3) by simp
  define d where "d = nat (- int j - (max (expo x) (- 1022) - 52))"
  have "max (expo x) (- 1022) - 52 = - int (j + d)" using le by (simp add: d_def)
  then have "ulp x = 2 powi (- int (j + d))" by (simp add: ulp_def)
  also have "\<dots> = 1 / 2 ^ (j + d)" by (simp only: power_int_minus_divide power_int_of_nat)
  finally show ?thesis ..
qed

lemma rnd_le_dyadic:
  assumes "\<bar>x\<bar> * 2 ^ j < 2 ^ 53" and "j \<le> 1074" and "x \<le> of_int m / 2 ^ j"
  shows "rnd x \<le> of_int m / 2 ^ j"
proof (cases "x = 0")
  case True
  then show ?thesis using assms(3) by (simp add: rnd_def)
next
  case False
  obtain d where u: "ulp x = 1 / 2 ^ (j + d)" using ulp_dyadic [OF False assms(1,2)] ..
  have "x * 2 ^ j \<le> of_int m" using assms(3) by (simp add: field_simps)
  then have "x * 2 ^ j * 2 ^ d \<le> of_int m * 2 ^ d" by (intro mult_right_mono) simp_all
  then have "x / ulp x \<le> of_int (m * 2 ^ d)" by (simp add: u power_add mult.assoc)
  then have "round_half_even (x / ulp x) \<le> m * 2 ^ d" by (rule round_half_even_le)
  then have "(of_int (round_half_even (x / ulp x)) :: rat) \<le> of_int (m * 2 ^ d)"
    by (simp only: of_int_le_iff)
  then have "of_int (round_half_even (x / ulp x)) / 2 ^ (j + d) \<le> (of_int (m * 2 ^ d) :: rat) / 2 ^ (j + d)"
    by (intro divide_right_mono) simp_all
  also have "\<dots> = of_int m / 2 ^ j" by (simp add: power_add)
  finally show ?thesis using False by (simp add: rnd_def u)
qed

lemma rnd_ge_dyadic:
  assumes "\<bar>x\<bar> * 2 ^ j < 2 ^ 53" and "j \<le> 1074" and "of_int m / 2 ^ j \<le> x"
  shows "of_int m / 2 ^ j \<le> rnd x"
proof (cases "x = 0")
  case True
  then show ?thesis using assms(3) by (simp add: rnd_def)
next
  case False
  obtain d where u: "ulp x = 1 / 2 ^ (j + d)" using ulp_dyadic [OF False assms(1,2)] ..
  have "of_int m \<le> x * 2 ^ j" using assms(3) by (simp add: field_simps)
  then have "of_int m * 2 ^ d \<le> x * 2 ^ j * 2 ^ d" by (intro mult_right_mono) simp_all
  then have "of_int (m * 2 ^ d) \<le> x / ulp x" by (simp add: u power_add mult.assoc)
  then have "m * 2 ^ d \<le> round_half_even (x / ulp x)" by (rule round_half_even_ge)
  then have "(of_int (m * 2 ^ d) :: rat) \<le> of_int (round_half_even (x / ulp x))"
    by (simp only: of_int_le_iff)
  then have "(of_int (m * 2 ^ d) :: rat) / 2 ^ (j + d)
             \<le> of_int (round_half_even (x / ulp x)) / 2 ^ (j + d)"
    by (intro divide_right_mono) simp_all
  moreover have "(of_int (m * 2 ^ d) :: rat) / 2 ^ (j + d) = of_int m / 2 ^ j"
    by (simp add: power_add)
  ultimately show ?thesis using False by (simp add: rnd_def u)
qed

lemma ulp_le:
  assumes "x \<noteq> 0" and "\<bar>x\<bar> < 2 powi (e + 1)" and "- 1022 \<le> e"
  shows "ulp x \<le> 2 powi (e - 52)"
proof -
  have "2 powi (expo x) < (2::rat) powi (e + 1)" using expo_lower [OF assms(1)] assms(2) by simp
  then have "expo x < e + 1" by (rule pow2_less_imp)
  then have "max (expo x) (- 1022) - 52 \<le> e - 52" using assms(3) by simp
  then show ?thesis unfolding ulp_def by (intro power_int_increasing) simp_all
qed

lemma double_below_one:
  assumes "rnd r = r" and "r < 1"
  shows "r \<le> 1 - 1 / 2 ^ 53"
proof (cases "r < 1 / 2")
  case True
  then show ?thesis by simp
next
  case False
  then have h: "1 / 2 \<le> r" by simp
  then have nz: "r \<noteq> 0" and a: "\<bar>r\<bar> = r" by simp_all
  have "2 powi (expo r) \<le> r" using expo_lower [OF nz] a by simp
  then have "2 powi (expo r) < (2::rat) powi 0" using assms(2) by simp
  then have e1: "expo r < 0" by (rule pow2_less_imp)
  have "r < 2 powi (expo r + 1)" using expo_upper [OF nz] a by simp
  then have "(2::rat) powi (- 1) < 2 powi (expo r + 1)" using h by (simp add: power_int_minus)
  then have "- 1 < expo r + 1" by (rule pow2_less_imp)
  then have "expo r = - 1" using e1 by simp
  then have u: "ulp r = 1 / 2 ^ 53" by (simp add: ulp_def power_int_minus field_simps)
  define n where "n = round_half_even (r / ulp r)"
  have r: "r = of_int n / 2 ^ 53" using assms(1) nz by (simp add: rnd_def u n_def)
  then have "(of_int n :: rat) < of_int (2 ^ 53)" using assms(2) by (simp add: field_simps)
  then have "n < 2 ^ 53" by (simp only: of_int_less_iff)
  then have "n \<le> 2 ^ 53 - 1" by simp
  then have "(of_int n :: rat) \<le> of_int (2 ^ 53 - 1)" by (simp only: of_int_le_iff)
  then have "(of_int n :: rat) / 2 ^ 53 \<le> of_int (2 ^ 53 - 1) / 2 ^ 53"
    by (intro divide_right_mono) simp_all
  then show ?thesis using r by (simp add: field_simps)
qed


section \<open>The frequency sweep stays in its band\<close>

lemma round1_range:
  assumes "88 \<le> v" and "v \<le> 108"
  shows "88 \<le> fdiv (of_int (Math_round (fmul v 10))) 10
         \<and> fdiv (of_int (Math_round (fmul v 10))) 10 \<le> 108"
proof -
  have b: "\<bar>v * 10\<bar> < 2 ^ 53" using assms by simp
  have y: "of_int 880 \<le> fmul v 10" "fmul v 10 \<le> of_int 1080"
    using rnd_ge_int [OF b, of 880] rnd_le_int [OF b, of 1080] assms
    by (simp_all add: fmul_def)
  define k where "k = Math_round (fmul v 10)"
  have k: "880 \<le> k" "k \<le> 1080"
    using y unfolding k_def Math_round_def by (simp_all add: le_floor_iff floor_le_iff) 
  have c: "\<bar>(of_int k :: rat) / 10\<bar> < 2 ^ 53" using k by simp
  show ?thesis
    using rnd_ge_int [OF c, of 88] rnd_le_int [OF c, of 108] k
    by (simp add: fdiv_def k_def)
qed

lemma sweepNext_range: "88 \<le> sweepNext prev delta \<and> sweepNext prev delta \<le> 108"
proof -
  define v where
    "v = (let n = fadd prev delta; n = (if 108 < n then 88 else n)
          in if n < 88 then 108 else n)"
  have "88 \<le> v \<and> v \<le> 108" by (simp add: v_def Let_def)
  then have "88 \<le> fdiv (of_int (Math_round (fmul v 10))) 10
             \<and> fdiv (of_int (Math_round (fmul v 10))) 10 \<le> 108"
    using round1_range by blast
  then show ?thesis by (simp add: sweepNext_def v_def Let_def)
qed

lemma round1_88: "fdiv (of_int (Math_round (fmul 88 10))) 10 = 88"
  by code_simp

lemma round1_108: "fdiv (of_int (Math_round (fmul 108 10))) 10 = 108"
  by code_simp

lemma sweepNext_high: "108 < fadd prev delta \<Longrightarrow> sweepNext prev delta = 88"
  by (simp add: sweepNext_def Let_def round1_88)

lemma sweepNext_low: "fadd prev delta < 88 \<Longrightarrow> sweepNext prev delta = 108"
  by (simp add: sweepNext_def Let_def round1_108)

lemma sweepNext_mid:
  "88 \<le> fadd prev delta \<Longrightarrow> fadd prev delta \<le> 108 \<Longrightarrow>
   sweepNext prev delta = fdiv (of_int (Math_round (fmul (fadd prev delta) 10))) 10"
  by (simp add: sweepNext_def Let_def)

lemma sum_high: "108 < fadd (lit (1079 / 10)) (lit (3 / 10))"
  by code_simp

lemma sum_low: "fadd (lit (881 / 10)) (lit (- (3 / 10))) < 88"
  by code_simp

lemma spiritBoxFreq_sweepTick:
  "spiritBoxFreq (sweepTick r1 r2 r3 s) = sweepFreq r1 (spiritBoxFreq s)"
  by (simp add: sweepTick_def Let_def)

lemma sweep_high_sample:
  "108 < fadd (lit (1079 / 10)) (sweepDelta (lit (4 / 5)))"
  by code_simp

lemma sweep_low_sample:
  "fadd (lit (881 / 10)) (sweepDelta (lit (1 / 5))) < 88"
  by code_simp

lemma lit_half: "lit (1 / 2) = 1 / 2"
  by code_simp

lemma sweepDelta_range:
  assumes "rnd r = r" and "0 \<le> r" and "r < 1"
  shows "- (1 / 2) \<le> sweepDelta r \<and> sweepDelta r < 1 / 2"
proof -
  have r1: "r \<le> 1 - 1 / 2 ^ 53" using assms(1,3) by (rule double_below_one)
  define a where "a = fmul r 2"
  define b where "b = fsub a 1"
  have a0: "0 \<le> a" unfolding a_def fmul_def using assms(2) by (intro rnd_nonneg) simp
  have "r * 2 \<le> of_int (2 ^ 53 - 1) / 2 ^ 52" using r1 by simp
  moreover have "\<bar>r * 2\<bar> * 2 ^ 52 < 2 ^ 53" using assms(2,3) by simp
  ultimately have a1: "a \<le> of_int (2 ^ 53 - 1) / 2 ^ 52"
    unfolding a_def fmul_def by (intro rnd_le_dyadic) simp_all
  have ab: "\<bar>a - 1\<bar> < 2" using a0 a1 by simp
  have "of_int (- 1) \<le> a - 1" using a0 by simp
  moreover have "\<bar>a - 1\<bar> < 2 ^ 53" using ab by simp
  ultimately have b0: "- 1 \<le> b"
    unfolding b_def fsub_def using rnd_ge_int [of "a - 1" "- 1"] by simp
  have "a - 1 \<le> of_int (2 ^ 52 - 1) / 2 ^ 52" using a1 by simp
  moreover have "\<bar>a - 1\<bar> * 2 ^ 52 < 2 ^ 53" using ab by simp
  ultimately have b1: "b \<le> of_int (2 ^ 52 - 1) / 2 ^ 52"
    unfolding b_def fsub_def by (intro rnd_le_dyadic) simp_all
  have d: "sweepDelta r = rnd (b / 2)"
    by (simp add: sweepDelta_def a_def b_def lit_half fmul_def)
  have bb: "\<bar>b / 2\<bar> < 1" using b0 b1 by simp
  have "of_int (- 1) / 2 ^ 1 \<le> b / 2" using b0 by simp
  moreover have "\<bar>b / 2\<bar> * 2 ^ 1 < 2 ^ 53" using bb by simp
  ultimately have "of_int (- 1) / 2 ^ 1 \<le> rnd (b / 2)" by (intro rnd_ge_dyadic) simp_all
  then have lo: "- (1 / 2) \<le> sweepDelta r" by (simp add: d)
  have "b / 2 \<le> of_int (2 ^ 52 - 1) / 2 ^ 53" using b1 by simp
  moreover have "\<bar>b / 2\<bar> * 2 ^ 53 < 2 ^ 53" using bb by simp
  ultimately have "rnd (b / 2) \<le> of_int (2 ^ 52 - 1) / 2 ^ 53" by (intro rnd_le_dyadic) simp_all
  then have "sweepDelta r < 1 / 2" by (simp add: d)
  then show ?thesis using lo by simp
qed

lemma Math_round_near: "\<bar>of_int (Math_round y) - y\<bar> \<le> 1 / 2"
proof -
  have "of_int \<lfloor>y + 1 / 2\<rfloor> \<le> y + 1 / 2" "y + 1 / 2 < of_int \<lfloor>y + 1 / 2\<rfloor> + 1"
    by linarith+
  then show ?thesis unfolding Math_round_def by linarith
qed

lemma round1_near:
  assumes "88 \<le> v" and "v \<le> 108"
  shows "\<bar>fdiv (of_int (Math_round (fmul v 10))) 10 - v\<bar> \<le> 1 / 20 + 1 / 2 ^ 45"
proof -
  define y where "y = fmul v 10"
  define k where "k = Math_round y"
  define z where "z = fdiv (of_int k) 10"
  have nz: "v * 10 \<noteq> 0" using assms by simp
  have "\<bar>v * 10\<bar> < 2 powi (10 + 1)" using assms by simp
  then have "ulp (v * 10) \<le> 2 powi (10 - 52)" using nz by (intro ulp_le) simp_all
  then have "ulp (v * 10) \<le> 1 / 2 ^ 42" by (simp add: power_int_minus field_simps)
  then have ey: "\<bar>y - v * 10\<bar> \<le> 1 / 2 ^ 43"
    using rnd_near [of "v * 10"] by (simp add: y_def fmul_def)
  have ek: "\<bar>of_int k - y\<bar> \<le> 1 / 2" unfolding k_def by (rule Math_round_near)
  have b: "\<bar>v * 10\<bar> < 2 ^ 53" using assms by simp
  have yb: "of_int 880 \<le> y" "y \<le> of_int 1080"
    using rnd_ge_int [OF b, of 880] rnd_le_int [OF b, of 1080] assms
    by (simp_all add: y_def fmul_def)
  have kb: "880 \<le> k" "k \<le> 1080"
    using yb unfolding k_def Math_round_def by (simp_all add: le_floor_iff floor_le_iff)
  have qnz: "(of_int k :: rat) / 10 \<noteq> 0" using kb by simp
  have "\<bar>(of_int k :: rat) / 10\<bar> < 2 powi (6 + 1)" using kb by simp
  then have "ulp (of_int k / 10) \<le> 2 powi (6 - 52)" using qnz by (intro ulp_le) simp_all
  then have "ulp (of_int k / 10) \<le> 1 / 2 ^ 46" by (simp add: power_int_minus field_simps)
  then have ez: "\<bar>z - of_int k / 10\<bar> \<le> 1 / 2 ^ 47"
    using rnd_near [of "of_int k / 10"] by (simp add: z_def fdiv_def)
  have tri: "\<bar>a + b + c\<bar> \<le> \<bar>a\<bar> + \<bar>b\<bar> + \<bar>c\<bar>" for a b c :: rat by linarith
  have "z - v = (z - of_int k / 10) + (of_int k - y) / 10 + (y - v * 10) / 10"
    by (simp add: field_simps)
  then have s: "\<bar>z - v\<bar> \<le> \<bar>z - of_int k / 10\<bar> + \<bar>(of_int k - y) / 10\<bar> + \<bar>(y - v * 10) / 10\<bar>"
    using tri [of "z - of_int k / 10" "(of_int k - y) / 10" "(y - v * 10) / 10"] by simp
  have p1: "\<bar>(of_int k - y) / 10\<bar> \<le> 1 / 20" using ek by simp
  have p2: "\<bar>(y - v * 10) / 10\<bar> \<le> 1 / (10 * 2 ^ 43)" using ey by simp
  have "(1::rat) / 2 ^ 47 + 1 / 20 + 1 / (10 * 2 ^ 43) \<le> 1 / 20 + 1 / 2 ^ 45" by simp
  then have "\<bar>z - v\<bar> \<le> 1 / 20 + 1 / 2 ^ 45" using s p1 p2 ez by linarith
  then show ?thesis by (simp add: z_def k_def y_def)
qed

lemma sweep_round_sample:
  "sweepNext 100 (lit (26 / 100)) = lit (1003 / 10)"
  "rnd (lit (19 / 25)) = lit (19 / 25)" "0 \<le> lit (19 / 25)" "lit (19 / 25) < 1"
  "88 \<le> fadd 100 (sweepDelta (lit (19 / 25)))"
  "fadd 100 (sweepDelta (lit (19 / 25))) \<le> 108"
  "fdiv (of_int (Math_round (fmul (fadd 100 (sweepDelta (lit (19 / 25)))) 10))) 10
   = lit (1003 / 10)"
  by code_simp+

lemma sweep_edge_sample:
  "rnd (lit (4 / 5)) = lit (4 / 5)" "0 \<le> lit (4 / 5)" "lit (4 / 5) < 1"
  "rnd (lit (1 / 5)) = lit (1 / 5)" "0 \<le> lit (1 / 5)" "lit (1 / 5) < 1"
  by code_simp+

text \<open>
  Claim C4. On every sweep tick the new frequency lies in \<open>[88, 108]\<close>. The random step
  \<^verbatim>\<open>(Math.random() * 2 - 1) * 0.5\<close> lies in \<open>[-0.5, 0.5)\<close> for every double that
  \<^verbatim>\<open>Math.random()\<close> can return. When the sum of the previous frequency and the step
  exceeds 108 the new frequency is 88, when the sum is below 88 it is 108 (a wrap, not
  a reflection). Otherwise it is the sum rounded to one decimal,
  \<^verbatim>\<open>Math.round(next * 10) / 10\<close>: a value within a twentieth of the sum, up to the
  error of the double arithmetic. From 107.9 a step of +0.3 gives 88, from 88.1 a step
  of -0.3 gives 108, and from 100 a step of 0.26 gives 100.3.
\<close>

theorem C4_sweep_wrap:
  "88 \<le> spiritBoxFreq (sweepTick r1 r2 r3 s)
   \<and> spiritBoxFreq (sweepTick r1 r2 r3 s) \<le> 108
   \<and> (rnd r1 = r1 \<and> 0 \<le> r1 \<and> r1 < 1
        \<longrightarrow> - (1 / 2) \<le> sweepDelta r1 \<and> sweepDelta r1 < 1 / 2)
   \<and> (108 < fadd (spiritBoxFreq s) (sweepDelta r1)
        \<longrightarrow> spiritBoxFreq (sweepTick r1 r2 r3 s) = 88)
   \<and> (fadd (spiritBoxFreq s) (sweepDelta r1) < 88
        \<longrightarrow> spiritBoxFreq (sweepTick r1 r2 r3 s) = 108)
   \<and> (88 \<le> fadd (spiritBoxFreq s) (sweepDelta r1)
        \<and> fadd (spiritBoxFreq s) (sweepDelta r1) \<le> 108
        \<longrightarrow> spiritBoxFreq (sweepTick r1 r2 r3 s) =
            fdiv (of_int (Math_round (fmul (fadd (spiritBoxFreq s) (sweepDelta r1)) 10))) 10
          \<and> \<bar>spiritBoxFreq (sweepTick r1 r2 r3 s) - fadd (spiritBoxFreq s) (sweepDelta r1)\<bar>
              \<le> 1 / 20 + 1 / 2 ^ 45)
   \<and> sweepNext (lit (1079 / 10)) (lit (3 / 10)) = 88
   \<and> sweepNext (lit (881 / 10)) (lit (- (3 / 10))) = 108
   \<and> sweepNext 100 (lit (26 / 100)) = lit (1003 / 10)"
proof -
  let ?next = "fadd (spiritBoxFreq s) (sweepDelta r1)"
  have f: "spiritBoxFreq (sweepTick r1 r2 r3 s) = sweepNext (spiritBoxFreq s) (sweepDelta r1)"
    by (simp add: spiritBoxFreq_sweepTick sweepFreq_def)
  have band: "88 \<le> sweepNext (spiritBoxFreq s) (sweepDelta r1)"
    "sweepNext (spiritBoxFreq s) (sweepDelta r1) \<le> 108"
    using sweepNext_range [of "spiritBoxFreq s" "sweepDelta r1"] by simp_all
  have step: "rnd r1 = r1 \<and> 0 \<le> r1 \<and> r1 < 1
        \<longrightarrow> - (1 / 2) \<le> sweepDelta r1 \<and> sweepDelta r1 < 1 / 2"
    using sweepDelta_range [of r1] by blast
  have mid: "88 \<le> ?next \<and> ?next \<le> 108
        \<longrightarrow> sweepNext (spiritBoxFreq s) (sweepDelta r1) =
            fdiv (of_int (Math_round (fmul ?next 10))) 10
          \<and> \<bar>sweepNext (spiritBoxFreq s) (sweepDelta r1) - ?next\<bar> \<le> 1 / 20 + 1 / 2 ^ 45"
    using round1_near [of ?next] by (simp add: sweepNext_mid del: power_numeral)
  show ?thesis
    unfolding f
    using band step mid sweepNext_high [of "spiritBoxFreq s" "sweepDelta r1"]
          sweepNext_low [of "spiritBoxFreq s" "sweepDelta r1"]
          sweepNext_high [OF sum_high] sweepNext_low [OF sum_low] sweep_round_sample(1)
    by blast
qed

theorem C4_sweep_wrap_witness:
  "rnd (lit (4 / 5)) = lit (4 / 5) \<and> 0 \<le> lit (4 / 5) \<and> lit (4 / 5) < 1
   \<and> - (1 / 2) \<le> sweepDelta (lit (4 / 5)) \<and> sweepDelta (lit (4 / 5)) < 1 / 2
   \<and> 108 < fadd (spiritBoxFreq (initial\<lparr> spiritBoxFreq := lit (1079 / 10) \<rparr>))
                (sweepDelta (lit (4 / 5)))
   \<and> spiritBoxFreq (sweepTick (lit (4 / 5)) (1 / 2) 0
                       (initial\<lparr> spiritBoxFreq := lit (1079 / 10) \<rparr>)) = 88
   \<and> fadd (spiritBoxFreq initial) (sweepDelta (lit (1 / 5))) < 88
   \<and> spiritBoxFreq (sweepTick (lit (1 / 5)) (1 / 2) 0 initial) = 108
   \<and> 88 \<le> fadd (spiritBoxFreq (initial\<lparr> spiritBoxFreq := 100 \<rparr>))
                 (sweepDelta (lit (19 / 25)))
   \<and> fadd (spiritBoxFreq (initial\<lparr> spiritBoxFreq := 100 \<rparr>))
           (sweepDelta (lit (19 / 25))) \<le> 108
   \<and> spiritBoxFreq (sweepTick (lit (19 / 25)) (1 / 2) 0
                       (initial\<lparr> spiritBoxFreq := 100 \<rparr>)) = lit (1003 / 10)
   \<and> \<bar>lit (1003 / 10) - fadd 100 (sweepDelta (lit (19 / 25)))\<bar> \<le> 1 / 20 + 1 / 2 ^ 45"
proof -
  let ?hi = "initial\<lparr> spiritBoxFreq := lit (1079 / 10) \<rparr>"
  let ?mid = "initial\<lparr> spiritBoxFreq := 100 \<rparr>"
  have i: "spiritBoxFreq initial = lit (881 / 10)"
    "spiritBoxFreq ?hi = lit (1079 / 10)" "spiritBoxFreq ?mid = 100"
    by (simp_all add: initial_def)
  have h: "108 < fadd (spiritBoxFreq ?hi) (sweepDelta (lit (4 / 5)))"
    unfolding i by (rule sweep_high_sample)
  have l: "fadd (spiritBoxFreq initial) (sweepDelta (lit (1 / 5))) < 88"
    unfolding i by (rule sweep_low_sample)
  have m: "88 \<le> fadd (spiritBoxFreq ?mid) (sweepDelta (lit (19 / 25)))"
    "fadd (spiritBoxFreq ?mid) (sweepDelta (lit (19 / 25))) \<le> 108"
    unfolding i by (rule sweep_round_sample)+
  note e = sweep_edge_sample(1-3)
  have d: "- (1 / 2) \<le> sweepDelta (lit (4 / 5))" "sweepDelta (lit (4 / 5)) < 1 / 2"
    using C4_sweep_wrap [of "lit (4 / 5)" "1 / 2" 0 ?hi] e by blast+
  have w1: "spiritBoxFreq (sweepTick (lit (4 / 5)) (1 / 2) 0 ?hi) = 88"
    using C4_sweep_wrap [of "lit (4 / 5)" "1 / 2" 0 ?hi] h by blast
  have w2: "spiritBoxFreq (sweepTick (lit (1 / 5)) (1 / 2) 0 initial) = 108"
    using C4_sweep_wrap [of "lit (1 / 5)" "1 / 2" 0 initial] l by blast
  have w3: "spiritBoxFreq (sweepTick (lit (19 / 25)) (1 / 2) 0 ?mid) =
              fdiv (of_int (Math_round
                (fmul (fadd (spiritBoxFreq ?mid) (sweepDelta (lit (19 / 25)))) 10))) 10"
    and w4: "\<bar>spiritBoxFreq (sweepTick (lit (19 / 25)) (1 / 2) 0 ?mid)
              - fadd (spiritBoxFreq ?mid) (sweepDelta (lit (19 / 25)))\<bar>
             \<le> 1 / 20 + 1 / 2 ^ 45"
    using C4_sweep_wrap [of "lit (19 / 25)" "1 / 2" 0 ?mid] m by blast+
  have w5: "spiritBoxFreq (sweepTick (lit (19 / 25)) (1 / 2) 0 ?mid) = lit (1003 / 10)"
    using w3 unfolding i by (simp only: sweep_round_sample)
  have w6: "\<bar>lit (1003 / 10) - fadd 100 (sweepDelta (lit (19 / 25)))\<bar> \<le> 1 / 20 + 1 / 2 ^ 45"
    using w4 unfolding w5 i .
  show ?thesis
    using e d h w1 l w2 m w5 w6 by blast
qed

section \<open>The alert throttle\<close>

lemmas handler_defs =
  toggleSession_def toggleSession_started_def toggleSession_created_def
  detectPoses_def detectPoses_resume_def processPoses_def poseCallback_def
  requestAnimationFrame_def cancelAnimationFrame_def stopCamera_def
  setSpiritBoxActive_def sweepTick_def logDetection_def logDetection_logged_def

lemma alerts_poseCallback:
  "alerts (poseCallback s (p, r, now)) =
     alerts s @ (if qualifying p \<and> 3000 < now - lastAlertTime s then [now] else [])"
  by (simp add: poseCallback_def alerts_def Let_def)

lemma lastAlertTime_poseCallback:
  "lastAlertTime (poseCallback s (p, r, now)) =
     (if qualifying p \<and> 3000 < now - lastAlertTime s then now else lastAlertTime s)"
  by (simp add: poseCallback_def Let_def)

lemma throttled_poseCallback:
  assumes "throttled s"
  shows "throttled (poseCallback s smp)"
proof -
  obtain p r now where smp: "smp = (p, r, now)" by (cases smp)
  show ?thesis
  proof (cases "qualifying p \<and> 3000 < now - lastAlertTime s")
    case False
    then have "alerts (poseCallback s smp) = alerts s"
      "lastAlertTime (poseCallback s smp) = lastAlertTime s"
      unfolding smp alerts_poseCallback lastAlertTime_poseCallback by auto
    then show ?thesis using assms by (simp add: throttled_def)
  next
    case True
    then have a: "alerts (poseCallback s smp) = alerts s @ [now]"
      and l: "lastAlertTime (poseCallback s smp) = now"
      unfolding smp alerts_poseCallback lastAlertTime_poseCallback by auto
    have old: "\<forall>t\<in>set (alerts s). t \<le> lastAlertTime s"
      using assms by (simp add: throttled_def list_all_iff)
    then have gap: "\<forall>t\<in>set (alerts s). 3000 < now - t" using True by fastforce
    show ?thesis
      unfolding throttled_def a l
      using assms gap by (auto simp: throttled_def list_all_iff sorted_wrt_append)
  qed
qed

lemma throttled_foldl:
  "throttled s \<Longrightarrow> throttled (foldl poseCallback s smps)"
  by (induction smps arbitrary: s) (simp_all add: throttled_poseCallback)

lemma throttled_cong:
  "alerts s' = alerts s \<Longrightarrow> lastAlertTime s' = lastAlertTime s \<Longrightarrow>
   throttled s \<Longrightarrow> throttled s'"
  by (simp add: throttled_def)

lemma throttled_processPoses:
  assumes "throttled s"
  shows "throttled (processPoses smps s)"
proof -
  have c: "throttled (s\<lparr> currentPoses := map fst smps \<rparr>)"
    using assms by (rule throttled_cong [rotated 2]) (simp_all add: alerts_def)
  show ?thesis
  proof (cases "0 < length smps")
    case True
    then show ?thesis using throttled_foldl [OF c] by (simp add: processPoses_def)
  next
    case False
    then show ?thesis
      using c by (auto simp: processPoses_def Let_def alerts_def intro: throttled_cong [rotated 2])
  qed
qed

lemma throttled_resume:
  assumes "throttled s"
  shows "throttled (detectPoses_resume res s)"
proof -
  have c: "throttled (s\<lparr> inFlight := inFlight s - 1 \<rparr>)"
    using assms by (rule throttled_cong [rotated 2]) (simp_all add: alerts_def)
  have "throttled (case res of Inl err \<Rightarrow> s\<lparr> inFlight := inFlight s - 1 \<rparr>
                   | Inr smps \<Rightarrow> processPoses smps (s\<lparr> inFlight := inFlight s - 1 \<rparr>))"
    using c by (cases res) (simp_all add: throttled_processPoses)
  then show ?thesis
    unfolding detectPoses_resume_def Let_def
    by (rule throttled_cong [rotated 2]) (simp_all add: alerts_def requestAnimationFrame_def)
qed

lemma step_quiet:
  assumes "step e s = Some s'" and "\<And>res. e \<noteq> PosesSettled res"
  shows "alerts s' = alerts s \<and> lastAlertTime s' = lastAlertTime s"
  using assms
  by (cases e)
     (auto simp: alerts_def handler_defs Let_def split: if_splits option.splits list.splits)

lemma throttled_step:
  assumes "step e s = Some s'" and "throttled s"
  shows "throttled s'"
proof (cases "\<exists>res. e = PosesSettled res")
  case True
  then show ?thesis using assms by (auto simp: throttled_resume split: if_splits)
next
  case False
  then show ?thesis using step_quiet [OF assms(1)] assms(2) by (auto intro: throttled_cong)
qed

lemma throttled_exec:
  "exec es s = Some s' \<Longrightarrow> throttled s \<Longrightarrow> throttled s'"
  by (induction es arbitrary: s) (auto split: option.splits dest: throttled_step)

lemma sample_poses:
  "qualifying strongPose" "qualifying halfPose" "\<not> qualifying weakPose"
  "\<not> qualifying blankPose" "validKeypoints blankPose = []"
  by code_simp+

lemma sample_emf:
  "newEmf strongPose 0 = 5" "newEmf halfPose 0 = 5 / 2"
  by code_simp+

text \<open>
  Claim C1, as amended. Handling a pose plays the alert exactly when the pose is
  qualifying and \<^verbatim>\<open>now - lastAlertTime.current > 3000\<close>: the comparison is strict, so a
  qualifying pose exactly 3000 ms after the last alert raises none. Consequently, in
  every run of the component that starts without alerts, of any two alerts the later
  one has a time stamp more than 3000 ms after the earlier one.
\<close>

theorem C1_alert_throttle:
  "alerts (poseCallback s (p, r, now)) =
     alerts s @ (if qualifying p \<and> 3000 < now - lastAlertTime s then [now] else [])
   \<and> (exec es s0 = Some s' \<and> alerts s0 = []
        \<longrightarrow> sorted_wrt (\<lambda>t u. 3000 < u - t) (alerts s'))"
proof -
  have "sorted_wrt (\<lambda>t u. 3000 < u - t) (alerts s')"
    if "exec es s0 = Some s'" and "alerts s0 = []"
  proof -
    have "throttled s0" using that(2) by (simp add: throttled_def)
    then have "throttled s'" using that(1) by (rule throttled_exec [rotated])
    then show ?thesis by (simp add: throttled_def)
  qed
  then show ?thesis by (simp add: alerts_poseCallback)
qed

lemma alertTrace_exec:
  "\<exists>s'. exec alertTrace initial = Some s' \<and> alerts s' = [5000, 8001]"
  by (simp add: alertTrace_def initial_def handler_defs alerts_def sample_poses sample_emf Let_def)

theorem C1_alert_throttle_witness:
  "\<exists>s'. exec alertTrace initial = Some s' \<and> alerts initial = []
        \<and> alerts s' = [5000, 8001]
        \<and> sorted_wrt (\<lambda>t u. 3000 < u - t) (alerts s')"
proof -
  obtain s' where e: "exec alertTrace initial = Some s'" and a: "alerts s' = [5000, 8001]"
    using alertTrace_exec by blast
  have i: "alerts initial = []" by (simp add: alerts_def initial_def)
  have "sorted_wrt (\<lambda>t u. 3000 < u - t) (alerts s')"
    using C1_alert_throttle [of initial strongPose 0 0 alertTrace initial s'] e i by blast
  then show ?thesis using e a i by blast
qed

theorem C1_alert_throttle_counterexample:
  "map_option lastAlertTime (exec firstFrameTrace initial) = Some 5000
   \<and> map_option alerts (exec firstFrameTrace initial) = Some [5000]
   \<and> qualifying strongPose
   \<and> (3000 :: int) \<le> 8000 - 5000
   \<and> map_option alerts
         (exec (firstFrameTrace @ [PosesSettled (Inr [(strongPose, 0, 8000)])]) initial)
       = Some [5000]"
  by (simp add: firstFrameTrace_def startTrace_def initial_def handler_defs alerts_def
                sample_poses sample_emf Let_def)


section \<open>Stopping the sweep\<close>

lemma sample_sweep:
  "0 < lit (5 / 100)" "0 < lit (1 / 20)" "pickWord 0 = ''hello''"
  by code_simp+

lemma poseCallback_sweep:
  "spiritBoxFreq (poseCallback s smp) = spiritBoxFreq s
   \<and> spiritWord (poseCallback s smp) = spiritWord s
   \<and> sweepInterval (poseCallback s smp) = sweepInterval s"
  by (cases smp) (simp add: poseCallback_def Let_def)

lemma foldl_poseCallback_sweep:
  "spiritBoxFreq (foldl poseCallback s smps) = spiritBoxFreq s
   \<and> spiritWord (foldl poseCallback s smps) = spiritWord s
   \<and> sweepInterval (foldl poseCallback s smps) = sweepInterval s"
  by (induction smps arbitrary: s) (simp_all add: poseCallback_sweep)

lemma step_sweep_off:
  assumes "step e s = Some s'" and "\<not> sweepInterval s" and "e \<noteq> ClickSpirit"
  shows "spiritBoxFreq s' = spiritBoxFreq s
         \<and> (spiritWord s' = spiritWord s \<or> spiritWord s' = [])
         \<and> \<not> sweepInterval s'"
  using assms
  by (cases e)
     (auto simp: handler_defs foldl_poseCallback_sweep Let_def
           split: if_splits option.splits list.splits sum.splits)

lemma exec_sweep_off:
  "exec es s = Some s' \<Longrightarrow> \<not> sweepInterval s \<Longrightarrow> ClickSpirit \<notin> set es \<Longrightarrow>
   spiritBoxFreq s' = spiritBoxFreq s
   \<and> (spiritWord s' = spiritWord s \<or> spiritWord s' = [])
   \<and> \<not> sweepInterval s'"
proof (induction es arbitrary: s)
  case Nil
  then show ?case by simp
next
  case (Cons e es)
  from Cons.prems(1) obtain s1 where s1: "step e s = Some s1" and r: "exec es s1 = Some s'"
    by (auto split: option.splits)
  have e: "e \<noteq> ClickSpirit" and es: "ClickSpirit \<notin> set es" using Cons.prems(3) by auto
  note a = step_sweep_off [OF s1 Cons.prems(2) e]
  have b: "spiritBoxFreq s' = spiritBoxFreq s1
           \<and> (spiritWord s' = spiritWord s1 \<or> spiritWord s' = [])
           \<and> \<not> sweepInterval s'"
    using Cons.IH [OF r _ es] a by blast
  show ?case using a b by auto
qed

text \<open>
  Claim C5, as amended. Stopping the sweep, by the session's stop branch or by the
  SPIRIT button, cancels the interval and leaves the pending word-clearing timeouts as
  they are. Once the interval is gone and until SPIRIT is pressed again, no tick can
  run and the frequency keeps its value; the word either keeps its value or has been
  emptied by a pending timeout.
\<close>

theorem C5_sweep_stop:
  "(isRunning s \<longrightarrow>
      \<not> sweepInterval (toggleSession s) \<and> wordClears (toggleSession s) = wordClears s)
   \<and> (spiritBoxActive s \<longrightarrow>
      \<not> sweepInterval (setSpiritBoxActive (\<not> spiritBoxActive s) s)
      \<and> wordClears (setSpiritBoxActive (\<not> spiritBoxActive s) s) = wordClears s)
   \<and> (\<not> sweepInterval s \<and> ClickSpirit \<notin> set es \<and> exec es s = Some s' \<longrightarrow>
      spiritBoxFreq s' = spiritBoxFreq s
      \<and> (spiritWord s' = spiritWord s \<or> spiritWord s' = [])
      \<and> step (SweepTick r1 r2 r3) s' = None)"
proof -
  have "isRunning s \<longrightarrow>
      \<not> sweepInterval (toggleSession s) \<and> wordClears (toggleSession s) = wordClears s"
    by (simp add: handler_defs Let_def split: option.splits)
  moreover have "spiritBoxActive s \<longrightarrow>
      \<not> sweepInterval (setSpiritBoxActive (\<not> spiritBoxActive s) s)
      \<and> wordClears (setSpiritBoxActive (\<not> spiritBoxActive s) s) = wordClears s"
    by (simp add: setSpiritBoxActive_def)
  moreover have "\<not> sweepInterval s \<and> ClickSpirit \<notin> set es \<and> exec es s = Some s' \<longrightarrow>
      spiritBoxFreq s' = spiritBoxFreq s
      \<and> (spiritWord s' = spiritWord s \<or> spiritWord s' = [])
      \<and> step (SweepTick r1 r2 r3) s' = None"
    using exec_sweep_off [of es s s'] by auto
  ultimately show ?thesis by blast
qed

lemma sweepStopped_facts:
  "exec [ClickSpirit, SweepTick (1 / 2) 0 0] initial = Some sweepRunning"
  "step ClickSpirit sweepRunning = Some sweepStopped"
  "spiritBoxActive sweepRunning" "sweepInterval sweepRunning"
  "spiritWord sweepRunning = ''hello''" "wordClears sweepRunning = 1"
  "\<not> spiritBoxActive sweepStopped" "\<not> sweepInterval sweepStopped"
  "spiritWord sweepStopped = ''hello''" "wordClears sweepStopped = 1"
  "spiritBoxFreq sweepStopped = spiritBoxFreq sweepRunning"
  by (simp_all add: sweepStopped_def sweepRunning_def initial_def handler_defs sample_sweep Let_def)

theorem C5_sweep_stop_counterexample:
  "exec [ClickSpirit, SweepTick (1 / 2) 0 0] initial = Some sweepRunning
   \<and> step ClickSpirit sweepRunning = Some sweepStopped
   \<and> \<not> spiritBoxActive sweepStopped
   \<and> spiritWord sweepStopped = ''hello''
   \<and> map_option spiritWord (step WordClearTimeout sweepStopped) = Some []"
proof -
  have "map_option spiritWord (step WordClearTimeout sweepStopped) = Some []"
    by (simp add: sweepStopped_facts)
  then show ?thesis using sweepStopped_facts(1,2,7,9) by blast
qed

theorem C5_sweep_stop_witness:
  "isRunning (sweepRunning\<lparr> isRunning := True \<rparr>)
   \<and> \<not> sweepInterval (toggleSession (sweepRunning\<lparr> isRunning := True \<rparr>))
   \<and> wordClears (toggleSession (sweepRunning\<lparr> isRunning := True \<rparr>)) = 1
   \<and> spiritBoxActive sweepRunning
   \<and> \<not> sweepInterval (setSpiritBoxActive (\<not> spiritBoxActive sweepRunning) sweepRunning)
   \<and> wordClears (setSpiritBoxActive (\<not> spiritBoxActive sweepRunning) sweepRunning) = 1
   \<and> \<not> sweepInterval sweepStopped
   \<and> ClickSpirit \<notin> set [WordClearTimeout]
   \<and> exec [WordClearTimeout] sweepStopped = Some (sweepStopped\<lparr> spiritWord := [], wordClears := 0 \<rparr>)
   \<and> spiritBoxFreq (sweepStopped\<lparr> spiritWord := [], wordClears := 0 \<rparr>) = spiritBoxFreq sweepStopped
   \<and> step (SweepTick 0 0 0) (sweepStopped\<lparr> spiritWord := [], wordClears := 0 \<rparr>) = None"
proof -
  have e: "exec [WordClearTimeout] sweepStopped
           = Some (sweepStopped\<lparr> spiritWord := [], wordClears := 0 \<rparr>)"
    by (simp add: sweepStopped_facts)
  have r: "isRunning (sweepRunning\<lparr> isRunning := True \<rparr>)" by simp
  show ?thesis
    using C5_sweep_stop [of "sweepRunning\<lparr> isRunning := True \<rparr>" "[]" "sweepRunning" 0 0 0]
          C5_sweep_stop [of sweepRunning "[]" "sweepRunning" 0 0 0]
          C5_sweep_stop [of sweepStopped "[WordClearTimeout]"
                            "sweepStopped\<lparr> spiritWord := [], wordClears := 0 \<rparr>" 0 0 0]
          e r
    by (simp add: sweepStopped_facts)
qed


section \<open>Pressing START twice\<close>

text \<open>
  Claim C3, as amended. \<^verbatim>\<open>toggleSession\<close> has no start guard. A call that arrives
  while the session is not yet running, also one that arrives while an earlier call
  still waits for the camera, enters the start branch. Every start call whose camera
  start succeeds sets the run flag, resets the detection count and the EMF level to 0,
  whatever they were, and calls \<^verbatim>\<open>detectPoses()\<close>, which with a ready video puts a
  further detection under way. So a second start is not a no-op and the count is reset
  a second time.
\<close>

theorem C3_second_start:
  "(\<not> isRunning s \<longrightarrow>
      step ClickToggleSession s = Some (s\<lparr> startsPending := startsPending s + 1 \<rparr>))
   \<and> (0 < startsPending s \<longrightarrow>
      step (CameraSettled True refs rs) s = Some (toggleSession_started True refs rs s)
      \<and> isRunning (toggleSession_started True refs rs s)
      \<and> detectionCount (toggleSession_started True refs rs s) = 0
      \<and> emfLevel (toggleSession_started True refs rs s) = 0
      \<and> startsPending (toggleSession_started True refs rs s) = startsPending s - 1
      \<and> (refs \<and> rs = 4 \<longrightarrow>
           inFlight (toggleSession_started True refs rs s) = inFlight s + 1))"
  by (simp add: handler_defs Let_def)

lemma doubleStarted_facts:
  "exec doubleStartTrace initial = Some doubleStarted"
  "isRunning doubleStarted" "detectionCount doubleStarted = 1" "emfLevel doubleStarted = 5"
  "startsPending doubleStarted = 1" "inFlight doubleStarted = 0"
  by (simp_all add: doubleStartTrace_def doubleStarted_def initial_def handler_defs alerts_def
                    sample_poses sample_emf Let_def)

theorem C3_second_start_counterexample:
  "map_option startsPending (exec [ClickToggleSession, ClickToggleSession] initial) = Some 2
   \<and> map_option isRunning (exec doubleStartTrace initial) = Some True
   \<and> map_option detectionCount (exec doubleStartTrace initial) = Some 1
   \<and> map_option emfLevel (exec doubleStartTrace initial) = Some 5
   \<and> map_option isRunning
         (exec (doubleStartTrace @ [CameraSettled True True 4]) initial) = Some True
   \<and> map_option detectionCount
         (exec (doubleStartTrace @ [CameraSettled True True 4]) initial) = Some 0
   \<and> map_option emfLevel
         (exec (doubleStartTrace @ [CameraSettled True True 4]) initial) = Some 0
   \<and> map_option inFlight
         (exec (doubleStartTrace @ [CameraSettled True True 4]) initial) = Some 1
   \<and> map_option frameQueue
         (exec (doubleStartTrace @ [CameraSettled True True 4]) initial) = Some [0]"
  by (simp add: doubleStartTrace_def initial_def handler_defs alerts_def
                sample_poses sample_emf Let_def)

theorem C3_second_start_witness:
  "\<not> isRunning (toggleSession initial)
   \<and> step ClickToggleSession (toggleSession initial)
       = Some (toggleSession initial\<lparr> startsPending := 2 \<rparr>)
   \<and> exec doubleStartTrace initial = Some doubleStarted
   \<and> 0 < startsPending doubleStarted
   \<and> detectionCount doubleStarted = 1
   \<and> step (CameraSettled True True 4) doubleStarted
       = Some (toggleSession_started True True 4 doubleStarted)
   \<and> isRunning (toggleSession_started True True 4 doubleStarted)
   \<and> detectionCount (toggleSession_started True True 4 doubleStarted) = 0
   \<and> emfLevel (toggleSession_started True True 4 doubleStarted) = 0
   \<and> inFlight (toggleSession_started True True 4 doubleStarted) = 1"
proof -
  have a: "\<not> isRunning (toggleSession initial)" "startsPending (toggleSession initial) = 1"
    by (simp_all add: initial_def toggleSession_def)
  have b: "0 < startsPending doubleStarted" "(4::nat) = 4" "True"
    by (simp_all add: doubleStarted_facts)
  show ?thesis
    using C3_second_start [of "toggleSession initial" True 4]
          C3_second_start [of doubleStarted True 4] a b doubleStarted_facts
    by simp
qed

section \<open>The EMF level\<close>

lemma lit_tenth_value: "lit (1 / 10) = 3602879701896397 / 2 ^ 55"
  by code_simp

lemma newEmf_le: "newEmf p r \<le> 5"
  by (simp add: newEmf_def)

lemma emfLevel_poseCallback:
  "emfLevel (poseCallback s (p, r, now)) = (if qualifying p then newEmf p r else emfLevel s)"
  by (simp add: poseCallback_def Let_def)

lemma emfLevel_poseCallback_le:
  "emfLevel s \<le> 5 \<Longrightarrow> emfLevel (poseCallback s smp) \<le> 5"
  by (cases smp) (simp add: emfLevel_poseCallback newEmf_le)

lemma emfLevel_foldl_le:
  "emfLevel s \<le> 5 \<Longrightarrow> emfLevel (foldl poseCallback s smps) \<le> 5"
  by (induction smps arbitrary: s) (simp_all add: emfLevel_poseCallback_le)

lemma lit_tenth_pos: "0 \<le> lit (1 / 10)"
  by (simp add: lit_def rnd_nonneg)

lemma decayStep_le:
  assumes "v \<le> 5"
  shows "decayStep v \<le> 5"
proof -
  have "v - lit (1 / 10) \<le> of_int 5" using assms lit_tenth_pos by simp
  then have "rnd (v - lit (1 / 10)) \<le> of_int 5" by (rule rnd_le_nat) simp_all
  then show ?thesis by (simp add: decayStep_def fsub_def)
qed

lemma decayStep_nonneg: "0 \<le> decayStep v"
  by (simp add: decayStep_def)

lemma emfLevel_processPoses:
  "emfLevel (processPoses [] s) = decayStep (emfLevel s)"
  by (simp add: processPoses_def)

lemma emfLevel_processPoses_le:
  assumes "emfLevel s \<le> 5"
  shows "emfLevel (processPoses smps s) \<le> 5"
proof (cases "0 < length smps")
  case True
  have "emfLevel (s\<lparr> currentPoses := map fst smps \<rparr>) \<le> 5" using assms by simp
  then show ?thesis using True by (simp add: processPoses_def emfLevel_foldl_le)
next
  case False
  then show ?thesis using assms by (simp add: processPoses_def decayStep_le)
qed

text \<open>
  Claim C6, as amended. The EMF level never exceeds 5: a qualifying pose sets it to
  \<^verbatim>\<open>Math.min(5, avgScore * 5 + Math.random() * 0.5)\<close>, whatever it was before, and a
  level of at most 5 is at most 5 again after every processed frame. Nothing makes it
  monotone: a qualifying pose of lower confidence lowers it at once, by any amount.
\<close>

theorem C6_intensity_bound:
  "(qualifying p \<longrightarrow> emfLevel (poseCallback s (p, r, now)) = newEmf p r)
   \<and> newEmf p r \<le> 5
   \<and> (emfLevel s \<le> 5 \<longrightarrow> emfLevel (processPoses smps s) \<le> 5)"
  by (simp add: emfLevel_poseCallback newEmf_le emfLevel_processPoses_le)

lemma two_frames:
  "emfLevel (processPoses [(strongPose, 0, 5000)] initial) = 5"
  "emfLevel (processPoses [(halfPose, 0, 5016)]
               (processPoses [(strongPose, 0, 5000)] initial)) = 5 / 2"
  by (simp_all add: processPoses_def emfLevel_poseCallback sample_poses sample_emf)

lemma lit_tenth_small: "lit (1 / 10) < 5 - 5 / 2"
  by code_simp

lemma two_frames_run:
  "map_option emfLevel (exec firstFrameTrace initial) = Some 5"
  "map_option emfLevel
     (exec (firstFrameTrace @ [PosesSettled (Inr [(halfPose, 0, 5016)])]) initial)
   = Some (5 / 2)"
  by (simp_all add: firstFrameTrace_def startTrace_def initial_def handler_defs alerts_def
                    sample_poses sample_emf Let_def)

theorem C6_intensity_bound_counterexample:
  "qualifying strongPose \<and> qualifying halfPose
   \<and> map_option emfLevel (exec firstFrameTrace initial) = Some 5
   \<and> map_option emfLevel
         (exec (firstFrameTrace @ [PosesSettled (Inr [(halfPose, 0, 5016)])]) initial)
       = Some (5 / 2)
   \<and> lit (1 / 10) < 5 - 5 / 2"
  using two_frames_run sample_poses lit_tenth_small by blast

theorem C6_intensity_bound_witness:
  "qualifying halfPose
   \<and> emfLevel (poseCallback (processPoses [(strongPose, 0, 5000)] initial)
                  (halfPose, 0, 5016)) = 5 / 2
   \<and> newEmf halfPose 0 \<le> 5
   \<and> emfLevel (processPoses [(strongPose, 0, 5000)] initial) \<le> 5
   \<and> emfLevel (processPoses [(halfPose, 0, 5016)]
                  (processPoses [(strongPose, 0, 5000)] initial)) \<le> 5"
  using C6_intensity_bound [of halfPose "processPoses [(strongPose, 0, 5000)] initial" 0 5016
                               "[(halfPose, 0, 5016)]"]
        sample_poses sample_emf two_frames
  by simp


section \<open>Decay from 1\<close>

lemma decay_ten:
  "decayStep (decayStep (decayStep (decayStep (decayStep
     (decayStep (decayStep (decayStep (decayStep (decayStep 1))))))))) = 5 / 2 ^ 55"
  by code_simp

lemma decay_last: "decayStep (5 / 2 ^ 55) = 0"
  by code_simp

lemma emfLevel_decay_iter:
  "emfLevel ((processPoses [] ^^ n) s) = (decayStep ^^ n) (emfLevel s)"
  by (induction n) (simp_all add: emfLevel_processPoses)

lemma funpow_ten: "(f ^^ 10) v = f (f (f (f (f (f (f (f (f (f v)))))))))"
  by (simp add: eval_nat_numeral)

lemma funpow_eleven: "(f ^^ 11) v = f ((f ^^ 10) v)"
  by (simp add: eval_nat_numeral)

lemma decay_iter_ten: "(decayStep ^^ 10) 1 = 5 / 2 ^ 55"
  by (simp only: funpow_ten decay_ten)

lemma decay_iter_eleven: "(decayStep ^^ 11) 1 = 0"
  by (simp only: funpow_eleven decay_iter_ten decay_last)

lemma decay_iter_nonneg: "0 \<le> v \<Longrightarrow> 0 \<le> (decayStep ^^ n) v"
  by (cases n) (simp_all add: decayStep_nonneg)

text \<open>
  Claim C9, as amended. Starting from an EMF level of 1, ten consecutive frames without
  a pose leave \<open>5 / 2 ^ 55\<close> (about \<open>1.4e-16\<close>), since subtracting the double
  nearest to 0.1 is inexact; the eleventh such frame reaches exactly 0, and the level
  is never negative at any step.
\<close>

theorem C9_decay_from_one:
  "emfLevel ((processPoses [] ^^ 10) (s\<lparr> emfLevel := 1 \<rparr>)) = 5 / 2 ^ 55
   \<and> emfLevel ((processPoses [] ^^ 11) (s\<lparr> emfLevel := 1 \<rparr>)) = 0
   \<and> (\<forall>n. 0 \<le> emfLevel ((processPoses [] ^^ n) (s\<lparr> emfLevel := 1 \<rparr>)))"
  by (simp add: emfLevel_decay_iter decay_iter_ten decay_iter_eleven decay_iter_nonneg
           del: power_numeral)

theorem C9_decay_from_one_counterexample:
  "emfLevel ((processPoses [] ^^ 10) (initial\<lparr> emfLevel := 1 \<rparr>)) \<noteq> 0"
  by (simp add: emfLevel_decay_iter decay_iter_ten del: power_numeral)


section \<open>Runs of the component where it departs from the specification\<close>

lemmas trace_simps =
  startTrace_def initial_def handler_defs alerts_def sample_poses sample_emf Let_def

text \<open>
  Claim C2 against the code. STOP is pressed while a detection is under way: the
  session is not running, no animation frame is queued, level and count are 0. When
  that detection then delivers its poses, the frame is handled in full: the EMF level
  becomes 2.5, the detection count 1, an alert is played and a new animation frame is
  requested.
\<close>

theorem C2_stale_frame_after_stop:
  "map_option isRunning (exec staleTrace initial) = Some False
   \<and> map_option inFlight (exec staleTrace initial) = Some 1
   \<and> map_option emfLevel (exec staleTrace initial) = Some 0
   \<and> map_option detectionCount (exec staleTrace initial) = Some 0
   \<and> map_option alerts (exec staleTrace initial) = Some []
   \<and> map_option frameQueue (exec staleTrace initial) = Some []
   \<and> map_option isRunning (exec (staleTrace @ [staleFrame]) initial) = Some False
   \<and> map_option emfLevel (exec (staleTrace @ [staleFrame]) initial) = Some (5 / 2)
   \<and> map_option detectionCount (exec (staleTrace @ [staleFrame]) initial) = Some 1
   \<and> map_option alerts (exec (staleTrace @ [staleFrame]) initial) = Some [5000]
   \<and> map_option frameQueue (exec (staleTrace @ [staleFrame]) initial) = Some [0]"
  by (simp add: staleTrace_def staleFrame_def trace_simps)

lemma decay_five: "decayStep 5 = lit (49 / 10)" "lit (49 / 10) < 5"
  by code_simp+

lemma weak_count: "length (validKeypoints weakPose) = 5"
  by code_simp

text \<open>
  Claim C7 against the code. A frame whose one pose has five valid keypoints is not
  qualifying, and the EMF level after it is the level before it, 5, where
  \<^verbatim>\<open>Math.max(0, prev - 0.1)\<close> is the double 4.9: the decay runs only for a frame
  without any pose.
\<close>

theorem C7_weak_pose_no_decay:
  "length (validKeypoints weakPose) = 5
   \<and> \<not> qualifying weakPose
   \<and> map_option emfLevel (exec firstFrameTrace initial) = Some 5
   \<and> map_option emfLevel (exec (firstFrameTrace @ [weakFrame]) initial) = Some 5
   \<and> max 0 (fsub 5 (lit (1 / 10))) = lit (49 / 10)
   \<and> lit (49 / 10) < 5"
proof -
  have "max 0 (fsub 5 (lit (1 / 10))) = lit (49 / 10)"
    using decay_five(1) by (simp only: decayStep_def)
  moreover have "map_option emfLevel (exec firstFrameTrace initial) = Some 5"
    "map_option emfLevel (exec (firstFrameTrace @ [weakFrame]) initial) = Some 5"
    by (simp_all add: firstFrameTrace_def weakFrame_def trace_simps)
  ultimately show ?thesis using weak_count sample_poses(3) decay_five(2) by blast
qed

text \<open>
  Claim C8 against the code. In a session whose EMF level reached 5 and stood at 2.5
  when STOP was pressed, the summary sent under \<^verbatim>\<open>max_emf_level\<close> is 2.5, the level
  of that moment.
\<close>

theorem C8_summary_not_maximum:
  "map_option emfLevel (exec peakTrace initial) = Some 5
   \<and> map_option emfLevel (exec sessionTrace initial) = Some (5 / 2)
   \<and> map_option outbox (exec sessionTrace initial) =
       Some [PostSession, PlayAlertSound 5000,
             PutSession ''s1'' \<lparr> total_detections = 1, max_emf_level = 5 / 2 \<rparr>]"
  by (simp add: sessionTrace_def peakTrace_def trace_simps)


section \<open>Logging a detection without valid keypoints\<close>

lemma sumScores_Nil: "sumScores [] = 0"
  by (simp add: sumScores_def)

text \<open>
  Claim C10. When the first of the current poses has no keypoint of score above 0.3,
  \<^verbatim>\<open>logDetection\<close> divides 0 by 0 and posts a detection whose confidence is \<open>NaN\<close>
  and whose keypoint count is 0.
\<close>

theorem C10_log_nan:
  "currentPoses s = p # ps \<and> validKeypoints p = [] \<longrightarrow>
     outbox (logDetection s) =
       outbox s @
         [PostDetection
            \<lparr> detection_type = ''pose'', confidence = NaN, keypoints_count = 0,
              emf_level = emfLevel s,
              spirit_box_frequency =
                (if spiritBoxActive s then Some (spiritBoxFreq s) else None) \<rparr>]"
  by (simp add: logDetection_def js_div_def sumScores_Nil Let_def)

lemma blankState_facts:
  "exec (startTrace @ [PosesSettled (Inr [(blankPose, 0, 5000)])]) initial = Some blankState"
  "isRunning blankState" "currentPoses blankState = [blankPose]"
  "emfLevel blankState = 0" "\<not> spiritBoxActive blankState"
  by (simp_all add: blankState_def trace_simps)

theorem C10_log_nan_witness:
  "exec (startTrace @ [PosesSettled (Inr [(blankPose, 0, 5000)])]) initial = Some blankState
   \<and> isRunning blankState
   \<and> currentPoses blankState = [blankPose]
   \<and> step ClickLogDetection blankState = Some (logDetection blankState)
   \<and> validKeypoints blankPose = []
   \<and> outbox (logDetection blankState) =
       outbox blankState @
         [PostDetection
            \<lparr> detection_type = ''pose'', confidence = NaN, keypoints_count = 0,
              emf_level = 0, spirit_box_frequency = None \<rparr>]"
proof -
  have "outbox (logDetection blankState) =
       outbox blankState @
         [PostDetection
            \<lparr> detection_type = ''pose'', confidence = NaN, keypoints_count = 0,
              emf_level = 0, spirit_box_frequency = None \<rparr>]"
    using C10_log_nan [of blankState blankPose "[]"] blankState_facts(3-5) sample_poses(5)
    by simp
  moreover have "step ClickLogDetection blankState = Some (logDetection blankState)"
    by (simp add: blankState_facts)
  ultimately show ?thesis using blankState_facts(1-3) sample_poses(5) by blast
qed

end
